theory Spec2Isabelle
  imports Complex_Main
begin

section \<open>Particle lifecycle manager (main.go)\<close>

text \<open>
  Go's \<open>int\<close> is taken as the 64-bit two's complement integer of the usual targets.
  Values are kept as HOL integers and every arithmetic result is wrapped into the
  64-bit range explicitly.
\<close>

definition wrap_int :: "int \<Rightarrow> int" where
  "wrap_int v = (v + 2 ^ 63) mod 2 ^ 64 - 2 ^ 63"

text \<open>
  The ways a call can end without returning: the run-time panics of the Go code, the
  panic of the audio library on a bad volume, and the \<open>log.Fatal\<close> exits of the loaders.
\<close>

datatype panic =
    IntnNonPositive | SliceBounds | NilDereference | IndexOutOfRange | VolumeOutOfRange
  | FatalOpen string | FatalRead | FatalUnmarshal | FatalDecode string | FatalPlayer

text \<open>\<open>image.Point\<close> and the \<open>Dust\<close> struct.\<close>

record Point =
  X :: int
  Y :: int

record Dust =
  Coords :: Point

definition image_Pt :: "int \<Rightarrow> int \<Rightarrow> Point" where
  "image_Pt x y = \<lparr>X = x, Y = y\<rparr>"

text \<open>\<open>func (d *Dust) Update()\<close>: \<open>d.Coords.Y--\<close> (the two log lines print only).\<close>

definition Dust_Update :: "Dust \<Rightarrow> Dust" where
  "Dust_Update d = d\<lparr>Coords := (Coords d)\<lparr>Y := wrap_int (Y (Coords d) - 1)\<rparr>\<rparr>"

text \<open>
  \<open>type Dusts []*Dust\<close> is a slice of pointers. The pointed-to structs live in a heap,
  a list of \<open>Dust\<close> values addressed by position; allocating appends to it. A slice is
  its backing array together with its length: the entries of \<open>arr\<close> from \<open>len\<close> on are
  storage that is no longer part of the slice. The backing array is modelled with
  exactly the slots that have been written: a slot of spare capacity never written
  is never read either.
\<close>

type_synonym addr = nat

record memory =
  heap :: "Dust list"
  arr :: "addr list"
  len :: nat

definition maxDusts :: nat where
  "maxDusts = 5"

text \<open>
  \<open>rand.Intn(n)\<close> of math/rand: panics when \<open>n \<le> 0\<close>, and returns a number of
  \<open>[0, n)\<close> otherwise. The draw \<open>r\<close> stands for the generator's next raw value.
\<close>

definition rand_Intn :: "int \<Rightarrow> int \<Rightarrow> panic + int" where
  "rand_Intn r n = (if n \<le> 0 then Inl IntnNonPositive else Inr (r mod n))"

text \<open>\<open>*ds = append(*ds, p)\<close>: writes slot \<open>len\<close> of the backing array, growing it when full.\<close>

definition append_ptr :: "memory \<Rightarrow> addr \<Rightarrow> memory" where
  "append_ptr m p =
     (if len m < length (arr m)
      then m\<lparr>arr := (arr m)[len m := p], len := len m + 1\<rparr>
      else m\<lparr>arr := take (len m) (arr m) @ [p], len := len m + 1\<rparr>)"

text \<open>
  The first statement of \<open>Dusts.Update\<close>: when fewer than \<open>maxDusts\<close> are held, draw
  an x and append a pointer to a new Dust at \<open>(x, GameSize.Y + 1)\<close>.
\<close>

definition spawn :: "Point \<Rightarrow> int \<Rightarrow> memory \<Rightarrow> panic + memory" where
  "spawn gameSize r m =
     (if len m < maxDusts then
        (case rand_Intn r (X gameSize) of
           Inl e \<Rightarrow> Inl e
         | Inr dsX \<Rightarrow>
             Inr (append_ptr
                   (m\<lparr>heap := heap m @ [\<lparr>Coords = image_Pt dsX (wrap_int (Y gameSize + 1))\<rparr>]\<rparr>)
                   (length (heap m))))
      else Inr m)"

text \<open>
  \<open>*ds = append((*ds)[:i], (*ds)[i+1:]...)\<close>. The slice expression \<open>(*ds)[i+1:]\<close>
  panics when \<open>i + 1\<close> exceeds the current length. Otherwise the tail is copied one
  slot down inside the same backing array and the length drops by one; the slot
  at the old last position keeps its old content.
\<close>

definition remove_at :: "nat \<Rightarrow> memory \<Rightarrow> panic + memory" where
  "remove_at i m =
     (if len m < i + 1 then Inl SliceBounds
      else Inr (m\<lparr>arr := take i (arr m) @ drop (i + 1) (take (len m) (arr m))
                          @ drop (len m - 1) (arr m),
                  len := len m - 1\<rparr>))"

text \<open>
  One round of the \<open>range\<close> loop at index \<open>i\<close>: \<open>d\<close> is read from slot \<open>i\<close> of the
  backing array the loop started on, updated through its pointer, and removed
  when its y is below zero. The loop visits slots of its backing array only; the
  first test excludes a record that is not a slice, with a length beyond its array.
\<close>

definition loop_body :: "nat \<Rightarrow> memory \<Rightarrow> panic + memory" where
  "loop_body i m =
     (if length (arr m) \<le> i then Inl IndexOutOfRange
      else
        let d = arr m ! i in
        if length (heap m) \<le> d then Inl NilDereference
        else
          let m' = m\<lparr>heap := (heap m)[d := Dust_Update (heap m ! d)]\<rparr> in
          if Y (Coords (heap m' ! d)) < 0 then remove_at i m' else Inr m')"

fun range_loop :: "nat list \<Rightarrow> memory \<Rightarrow> panic + memory" where
  "range_loop [] m = Inr m"
| "range_loop (i # is) m =
     (case loop_body i m of Inl e \<Rightarrow> Inl e | Inr m' \<Rightarrow> range_loop is m')"

text \<open>
  \<open>func (ds *Dusts) Update()\<close>. \<open>range *ds\<close> evaluates the slice once, so the loop
  runs over the indices below the length the slice has after the spawn step.
\<close>

definition Dusts_Update :: "Point \<Rightarrow> int \<Rightarrow> memory \<Rightarrow> panic + memory" where
  "Dusts_Update gameSize r m =
     (case spawn gameSize r m of
        Inl e \<Rightarrow> Inl e
      | Inr m' \<Rightarrow> range_loop [0 ..< len m'] m')"

text \<open>A run of ticks, one raw random draw per tick; a panic ends the run.\<close>

fun ticks :: "Point \<Rightarrow> int list \<Rightarrow> memory \<Rightarrow> panic + memory" where
  "ticks gameSize [] m = Inr m"
| "ticks gameSize (r # rs) m =
     (case Dusts_Update gameSize r m of Inl e \<Rightarrow> Inl e | Inr m' \<Rightarrow> ticks gameSize rs m')"

text \<open>\<open>Dusts{}\<close>, the collection \<open>main\<close> starts with, and what the collection holds.\<close>

definition empty_memory :: memory where
  "empty_memory = \<lparr>heap = [], arr = [], len = 0\<rparr>"

definition held :: "memory \<Rightarrow> addr list" where
  "held m = take (len m) (arr m)"

text \<open>
  The states the program keeps: the slice lies inside its backing array, holds no
  pointer twice, and every pointer of the backing array points into the heap.
\<close>

definition valid :: "memory \<Rightarrow> bool" where
  "valid m \<longleftrightarrow> len m \<le> length (arr m) \<and> distinct (held m)
     \<and> (\<forall>p \<in> set (arr m). p < length (heap m))"

section \<open>Asset loading and sound pools (package assets)\<close>

subsection \<open>The embedded file system and the libraries\<close>

type_synonym bytes = "nat list"
type_synonym error = string

text \<open>An entry of the embedded file system: a regular file or a directory.\<close>

datatype entry = File bytes | Directory

text \<open>
  \<open>float64\<close> values. The code only compares them with 0 and 1 and stores them, so
  a finite value is kept as the real number it denotes.
\<close>

datatype float64 = Finite real | PosInf | NegInf | NaN

fun f64_le :: "float64 \<Rightarrow> float64 \<Rightarrow> bool" where
  "f64_le NaN _ = False"
| "f64_le _ NaN = False"
| "f64_le NegInf _ = True"
| "f64_le _ PosInf = True"
| "f64_le (Finite a) (Finite b) = (a \<le> b)"
| "f64_le PosInf _ = False"
| "f64_le _ NegInf = False"

text \<open>\<open>vorbis.Stream\<close>, the two kinds of source a player reads, and \<open>audio.Player\<close>.\<close>

record Stream =
  samples :: bytes
  Length :: int

datatype Source = Once Stream | InfiniteLoop Stream int

datatype Context = Context int

record Player =
  source :: Source
  pvolume :: float64
  playing :: bool
  position :: nat


text \<open>
  The methods of \<open>audio.Player\<close> that the pool calls. \<open>SetVolume\<close> of the library
  panics on a volume outside \<open>[0, 1]\<close>.
\<close>

definition Player_SetVolume :: "float64 \<Rightarrow> Player \<Rightarrow> panic + Player" where
  "Player_SetVolume v p =
     (if \<not> (f64_le (Finite 0) v \<and> f64_le v (Finite 1)) then Inl VolumeOutOfRange
      else Inr (p\<lparr>pvolume := v\<rparr>))"

definition Player_Rewind :: "Player \<Rightarrow> Player" where
  "Player_Rewind p = p\<lparr>position := 0\<rparr>"

definition Player_Play :: "Player \<Rightarrow> Player" where
  "Player_Play p = p\<lparr>playing := True\<rparr>"

definition Player_Pause :: "Player \<Rightarrow> Player" where
  "Player_Pause p = p\<lparr>playing := False\<rparr>"

text \<open>The sprite sheet structs.\<close>

record FramePosition =
  FX :: int
  FY :: int
  FW :: int
  FH :: int

record Frame =
  Duration :: int
  Position :: FramePosition

record FrameTags =
  Name :: string
  From :: int
  To :: int
  Direction :: string

type_synonym Frames = "Frame list"

record SpriteMeta =
  ImageName :: string
  FrameTags :: "FrameTags list"

datatype ebiten_Image = NewImageFromImage bytes

record SpriteSheet =
  Sprite :: Frames
  Meta :: SpriteMeta
  Image :: "ebiten_Image option"

text \<open>The zero value of \<open>var ss SpriteSheet\<close>.\<close>

definition zero_SpriteSheet :: SpriteSheet where
  "zero_SpriteSheet = \<lparr>Sprite = [], Meta = \<lparr>ImageName = [], FrameTags = []\<rparr>, Image = None\<rparr>"

text \<open>
  What the code is run against: the content of the embedded file system \<open>assets\<close>
  and the decoders and constructors of the libraries. \<open>json_Unmarshal\<close> returns the
  value it leaves in its target together with its error result.
\<close>

record env =
  assets :: "string \<Rightarrow> entry option"
  json_Unmarshal :: "bytes \<Rightarrow> SpriteSheet \<Rightarrow> SpriteSheet \<times> error option"
  png_Decode :: "bytes \<Rightarrow> error + bytes"
  vorbis_DecodeWithSampleRate :: "int \<Rightarrow> bytes \<Rightarrow> error + Stream"
  player_error :: "Context \<Rightarrow> Source \<Rightarrow> error option"

text \<open>
  \<open>audio.NewPlayer(ctx, src)\<close>: an error of the library, or a new player on the
  source, stopped at the start with the library's initial volume 1.
\<close>

definition audio_NewPlayer :: "env \<Rightarrow> Context \<Rightarrow> Source \<Rightarrow> error + Player" where
  "audio_NewPlayer e ctx src =
     (case player_error e ctx src of
        Some err \<Rightarrow> Inl err
      | None \<Rightarrow> Inr \<lparr>source = src, pvolume = Finite 1, playing = False, position = 0\<rparr>)"

text \<open>\<open>ioutil.ReadAll\<close> on an opened entry: reading a directory is an error.\<close>

definition ioutil_ReadAll :: "entry \<Rightarrow> bytes \<times> error option" where
  "ioutil_ReadAll file =
     (case file of File data \<Rightarrow> (data, None) | Directory \<Rightarrow> ([], Some ''is a directory''))"

text \<open>A path split at its slashes, and elements joined with slashes.\<close>

fun split_slash :: "string \<Rightarrow> string list" where
  "split_slash [] = [[]]"
| "split_slash (c # cs) =
     (if c = CHR ''/'' then [] # split_slash cs
      else (case split_slash cs of [] \<Rightarrow> [[c]] | x # xs \<Rightarrow> (c # x) # xs))"

fun join_slash :: "string list \<Rightarrow> string" where
  "join_slash [] = []"
| "join_slash [e] = e"
| "join_slash (e # es) = e @ ''/'' @ join_slash es"

text \<open>
  \<open>path.Clean\<close> of the Go library, element by element: an empty element (from a
  doubled or trailing slash) and \<open>.\<close> are dropped; \<open>..\<close> removes the element before
  it when there is one that is not itself \<open>..\<close>, is dropped at the start of a rooted
  path, and is kept otherwise. The empty path and a relative path that cleans to
  nothing give \<open>.\<close>.
\<close>

definition clean_elem :: "bool \<Rightarrow> string list \<Rightarrow> string \<Rightarrow> string list" where
  "clean_elem rooted out c =
     (if c = [] then out
      else if c = ''.'' then out
      else if c = ''..'' then
        (if out = [] then (if rooted then out else [''..''])
         else if last out = ''..'' then out @ [''..'']
         else butlast out)
      else out @ [c])"

definition path_Clean :: "string \<Rightarrow> string" where
  "path_Clean path =
     (if path = [] then ''.''
      else
        let rooted = (hd path = CHR ''/'');
            out = join_slash (foldl (clean_elem rooted) [] (split_slash path))
        in if rooted then CHR ''/'' # out else if out = [] then ''.'' else out)"

text \<open>
  \<open>path.Join\<close>: the elements from the first non-empty one on, joined with slashes,
  and the result cleaned; the empty string when every element is empty.
\<close>

definition path_Join :: "string list \<Rightarrow> string" where
  "path_Join elem =
     (case dropWhile (\<lambda>e. e = []) elem of
        [] \<Rightarrow> []
      | e # es \<Rightarrow> path_Clean (join_slash (e # es)))"

text \<open>
  The directive \<open>//go:embed *.png\<close> above \<open>var assets embed.FS\<close>. The package
  directory is given by its regular files, each with its slash-separated path
  relative to the directory. The pattern is matched against the entries of the
  package directory: a file is embedded when the first element of its path matches
  \<open>*.png\<close> and, below a matching directory, no element begins with a dot or an
  underscore.
\<close>

definition match_png :: "string \<Rightarrow> bool" where
  "match_png elem = (4 \<le> length elem \<and> drop (length elem - 4) elem = ''.png'')"

definition hidden :: "string \<Rightarrow> bool" where
  "hidden elem = (case elem of [] \<Rightarrow> False | c # cs \<Rightarrow> c = CHR ''.'' \<or> c = CHR ''_'')"

definition embedded :: "string \<Rightarrow> bool" where
  "embedded p =
     (let elems = split_slash p in
      if list_ex hidden (tl elems) then False else match_png (hd elems))"

text \<open>\<open>fs.ValidPath\<close>: \<open>.\<close>, or elements none of which is empty, \<open>.\<close> or \<open>..\<close>.\<close>

definition bad_elem :: "string \<Rightarrow> bool" where
  "bad_elem elem = (elem = [] \<or> elem = ''.'' \<or> elem = ''..'')"

definition fs_ValidPath :: "string \<Rightarrow> bool" where
  "fs_ValidPath name =
     (if name = ''.'' then True
      else if list_ex bad_elem (split_slash name) then False else True)"

definition below :: "string list \<Rightarrow> string list \<Rightarrow> bool" where
  "below elems dir = (length dir < length elems \<and> take (length dir) elems = dir)"

text \<open>
  What \<open>Open\<close> finds in the embedded file system: nothing under a name that is not
  a valid path, the root directory, an embedded file, or a directory that lies
  above an embedded file.
\<close>

definition go_embed_png :: "(string \<times> bytes) list \<Rightarrow> string \<Rightarrow> entry option" where
  "go_embed_png dir name =
     (if fs_ValidPath name then
        (if name = ''.'' then Some Directory
         else
           (case map_of (filter (\<lambda>(p, data). embedded p) dir) name of
              Some data \<Rightarrow> Some (File data)
            | None \<Rightarrow>
                if list_ex (\<lambda>(p, data). embedded p
                              \<and> below (split_slash p) (split_slash name)) dir
                then Some Directory
                else None))
      else None)"

text \<open>\<open>strconv.Itoa\<close>: the decimal digits, with a minus sign for a negative number.\<close>

fun digits :: "nat \<Rightarrow> string" where
  "digits n =
     (if n < 10 then [char_of (48 + n)] else digits (n div 10) @ [char_of (48 + n mod 10)])"

declare digits.simps [simp del]

definition strconv_Itoa :: "int \<Rightarrow> string" where
  "strconv_Itoa i = (if i < 0 then CHR ''-'' # digits (nat (- i)) else digits (nat i))"

subsection \<open>Loaders\<close>

text \<open>\<open>func LoadImage(name string) *ebiten.Image\<close>.\<close>

definition LoadImage :: "env \<Rightarrow> string \<Rightarrow> panic + ebiten_Image" where
  "LoadImage e name =
     (case assets e name of
        None \<Rightarrow> Inl (FatalOpen name)
      | Some file \<Rightarrow>
          (case (case file of File data \<Rightarrow> png_Decode e data
                            | Directory \<Rightarrow> Inl ''is a directory'') of
             Inl err \<Rightarrow> Inl (FatalDecode name)
           | Inr raw \<Rightarrow> Inr (NewImageFromImage raw)))"

text \<open>
  \<open>func loadSprite(name string) *SpriteSheet\<close>. The variable \<open>err\<close> is assigned by
  \<open>assets.Open\<close> and by \<open>ioutil.ReadAll\<close>; the result of \<open>json.Unmarshal\<close> is not
  assigned to anything, so the test after it reads the error of \<open>ReadAll\<close> again.
\<close>

definition loadSprite :: "env \<Rightarrow> string \<Rightarrow> panic + SpriteSheet" where
  "loadSprite e name0 =
     (let name = path_Join [''assets'', ''sprites'', name0] in
      case assets e (name @ ''.json'') of
        None \<Rightarrow> Inl (FatalOpen name)
      | Some file \<Rightarrow>
          (let (data, err) = ioutil_ReadAll file in
           if err \<noteq> None then Inl FatalRead
           else
             let ss = fst (json_Unmarshal e data zero_SpriteSheet) in
             if err \<noteq> None then Inl FatalUnmarshal
             else
               (case LoadImage e (name @ ''.png'') of
                  Inl x \<Rightarrow> Inl x
                | Inr img \<Rightarrow> Inr (ss\<lparr>Image := Some img\<rparr>))))"

text \<open>\<open>func LoadSoundFile(name string, sampleRate int) *vorbis.Stream\<close>.\<close>

definition LoadSoundFile :: "env \<Rightarrow> string \<Rightarrow> int \<Rightarrow> panic + Stream" where
  "LoadSoundFile e name sampleRate =
     (case assets e name of
        None \<Rightarrow> Inl (FatalOpen name)
      | Some file \<Rightarrow>
          (case (case file of File data \<Rightarrow> vorbis_DecodeWithSampleRate e sampleRate data
                            | Directory \<Rightarrow> Inl ''is a directory'') of
             Inl err \<Rightarrow> Inl (FatalDecode name)
           | Inr music \<Rightarrow> Inr music))"

text \<open>\<open>NewMusicPlayer\<close> wraps the stream in an infinite loop; \<open>NewSoundPlayer\<close> does not.\<close>

definition NewMusicPlayer :: "env \<Rightarrow> Stream \<Rightarrow> Context \<Rightarrow> panic + Player" where
  "NewMusicPlayer e music ctx =
     (let musicLoop = InfiniteLoop music (Length music) in
      case audio_NewPlayer e ctx musicLoop of
        Inl err \<Rightarrow> Inl FatalPlayer
      | Inr musicPlayer \<Rightarrow> Inr musicPlayer)"

definition NewSoundPlayer :: "env \<Rightarrow> Stream \<Rightarrow> Context \<Rightarrow> panic + Player" where
  "NewSoundPlayer e audioFile ctx =
     (case audio_NewPlayer e ctx (Once audioFile) of
        Inl err \<Rightarrow> Inl FatalPlayer
      | Inr audioPlayer \<Rightarrow> Inr audioPlayer)"

subsection \<open>The sound pool\<close>

record Sound =
  Audio :: "Player list"
  LastPlayed :: int
  Volume :: float64

text \<open>The zero value \<open>Sound{}\<close>.\<close>

definition zero_Sound :: Sound where
  "zero_Sound = \<lparr>Audio = [], LastPlayed = 0, Volume = Finite 0\<rparr>"

text \<open>\<open>func (s *Sound) AddMusic(f string, sampleRate int, ctx *audio.Context)\<close>.\<close>

definition AddMusic :: "env \<Rightarrow> string \<Rightarrow> int \<Rightarrow> Context \<Rightarrow> Sound \<Rightarrow> panic + Sound" where
  "AddMusic e f sampleRate ctx s =
     (case LoadSoundFile e (f @ ''.ogg'') sampleRate of
        Inl x \<Rightarrow> Inl x
      | Inr music \<Rightarrow>
          (case NewMusicPlayer e music ctx of
             Inl x \<Rightarrow> Inl x
           | Inr p \<Rightarrow> Inr (s\<lparr>Audio := Audio s @ [p]\<rparr>)))"

text \<open>
  The loop of \<open>AddSound\<close>, \<open>for i := 0; i < variants; i++\<close>, from counter \<open>i\<close> on.
  \<open>i + 1\<close> cannot overflow, since \<open>i\<close> is below \<open>variants\<close>.
\<close>

function AddSound_loop ::
  "env \<Rightarrow> string \<Rightarrow> int \<Rightarrow> Context \<Rightarrow> int \<Rightarrow> int \<Rightarrow> Sound \<Rightarrow> panic + Sound" where
  "AddSound_loop e f sampleRate ctx variants i s =
     (if i < variants then
        (let filename = (if variants = 1 then f @ ''.ogg''
                         else f @ ''-'' @ strconv_Itoa (i + 1) @ ''.ogg'') in
         case LoadSoundFile e filename sampleRate of
           Inl x \<Rightarrow> Inl x
         | Inr audioFile \<Rightarrow>
             (case NewSoundPlayer e audioFile ctx of
                Inl x \<Rightarrow> Inl x
              | Inr p \<Rightarrow>
                  AddSound_loop e f sampleRate ctx variants (i + 1)
                    (s\<lparr>Audio := Audio s @ [p]\<rparr>)))
      else Inr s)"
  by pat_completeness auto
termination
  by (relation "measure (\<lambda>(e, f, sampleRate, ctx, variants, i, s). nat (variants - i))") auto

declare AddSound_loop.simps [simp del]

text \<open>
  \<open>func (s *Sound) AddSound(f string, sampleRate int, ctx *audio.Context, v ...int)\<close>:
  the variadic \<open>v\<close> is a list, and \<open>variants\<close> is its first element, or 1 when it is empty.
\<close>

definition AddSound ::
  "env \<Rightarrow> string \<Rightarrow> int \<Rightarrow> Context \<Rightarrow> int list \<Rightarrow> Sound \<Rightarrow> panic + Sound" where
  "AddSound e f sampleRate ctx v s =
     (let variants = (if length v > 0 then hd v else 1) in
      AddSound_loop e f sampleRate ctx variants 0 s)"

text \<open>\<open>func (s *Sound) SetVolume(v float64)\<close>.\<close>

definition SetVolume :: "float64 \<Rightarrow> Sound \<Rightarrow> Sound" where
  "SetVolume v s = (if f64_le (Finite 0) v \<and> f64_le v (Finite 1) then s\<lparr>Volume := v\<rparr> else s)"

text \<open>
  \<open>func (s *Sound) PlayVariant(i int)\<close>: \<open>s.Audio[i]\<close> panics when \<open>i\<close> is not an
  index of the slice.
\<close>

definition PlayVariant :: "int \<Rightarrow> Sound \<Rightarrow> panic + Sound" where
  "PlayVariant i s =
     (let s1 = s\<lparr>LastPlayed := i\<rparr> in
      if i < 0 \<or> int (length (Audio s1)) \<le> i then Inl IndexOutOfRange
      else
        (case Player_SetVolume (Volume s1) (Audio s1 ! nat i) of
           Inl x \<Rightarrow> Inl x
         | Inr p \<Rightarrow> Inr (s1\<lparr>Audio := (Audio s1)[nat i := Player_Play (Player_Rewind p)]\<rparr>)))"

text \<open>\<open>func (s *Sound) Play()\<close>, with the raw draw \<open>r\<close> of the random generator.\<close>

definition Play :: "int \<Rightarrow> Sound \<Rightarrow> panic + Sound" where
  "Play r s =
     (let length = int (length (Audio s)); index = 0 in
      if length = 0 then Inr s
      else if length > 1 then
        (case rand_Intn r length of
           Inl x \<Rightarrow> Inl x
         | Inr index \<Rightarrow> PlayVariant index s)
      else PlayVariant index s)"

text \<open>\<open>func (s *Sound) Pause()\<close>.\<close>

definition Pause :: "Sound \<Rightarrow> panic + Sound" where
  "Pause s =
     (if LastPlayed s < 0 \<or> int (length (Audio s)) \<le> LastPlayed s then Inl IndexOutOfRange
      else Inr (s\<lparr>Audio := (Audio s)[nat (LastPlayed s) :=
                                Player_Pause (Audio s ! nat (LastPlayed s))]\<rparr>))"

text \<open>The calls on a pool other than \<open>Play\<close> and \<open>PlayVariant\<close>, and a sequence of them.\<close>

datatype call =
    CallAddMusic string int Context
  | CallAddSound string int Context "int list"
  | CallSetVolume float64
  | CallPause

fun do_call :: "env \<Rightarrow> call \<Rightarrow> Sound \<Rightarrow> panic + Sound" where
  "do_call e (CallAddMusic f sampleRate ctx) s = AddMusic e f sampleRate ctx s"
| "do_call e (CallAddSound f sampleRate ctx v) s = AddSound e f sampleRate ctx v s"
| "do_call e (CallSetVolume v) s = Inr (SetVolume v s)"
| "do_call e CallPause s = Pause s"

fun do_calls :: "env \<Rightarrow> call list \<Rightarrow> Sound \<Rightarrow> panic + Sound" where
  "do_calls e [] s = Inr s"
| "do_calls e (c # cs) s =
     (case do_call e c s of Inl x \<Rightarrow> Inl x | Inr s' \<Rightarrow> do_calls e cs s')"



text \<open>
  A small file system to run the loaders on, given entry by entry.
  \<open>json.Unmarshal\<close> rejects the single byte \<open>{\<close> with a syntax error and leaves
  its target as it was.
\<close>

definition demo_env :: env where
  "demo_env = \<lparr>
     assets = map_of
       [(''step-1.ogg'', File [1]), (''step-2.ogg'', File [2]), (''step-3.ogg'', File [3]),
        (''jump.ogg'', File [4]), (''theme.ogg'', File [5, 6]),
        (''assets/sprites/player.json'', File [123]),
        (''assets/sprites/player.png'', File [137, 80, 78, 71])],
     json_Unmarshal = (\<lambda>data ss.
        if data = [123] then (ss, Some ''unexpected end of JSON input'') else (ss, None)),
     png_Decode = (\<lambda>data. Inr data),
     vorbis_DecodeWithSampleRate =
       (\<lambda>sampleRate data. Inr \<lparr>samples = data, Length = int (length data)\<rparr>),
     player_error = (\<lambda>ctx src. None)\<rparr>"

text \<open>
  The same libraries on the file system that the directive embeds from a package
  directory. The directory holds an image at its top, a sprite under
  \<open>assets/sprites\<close>, and a directory named \<open>dir.png\<close> with a description that is
  the single byte \<open>{\<close> and an image.
\<close>

definition package_dir :: "(string \<times> bytes) list" where
  "package_dir =
     [(''logo.png'', [137, 80, 78, 71]),
      (''assets/sprites/player.json'', [123]),
      (''assets/sprites/player.png'', [137, 80, 78, 71]),
      (''dir.png/foo.json'', [123]),
      (''dir.png/foo.png'', [137, 80, 78, 71])]"

definition embed_env :: env where
  "embed_env = demo_env\<lparr>assets := go_embed_png package_dir\<rparr>"

text \<open>The volume of a pool is one the library accepts.\<close>

definition volume_ok :: "Sound \<Rightarrow> bool" where
  "volume_ok s \<longleftrightarrow> f64_le (Finite 0) (Volume s) \<and> f64_le (Volume s) (Finite 1)"

text \<open>The file name the loop of \<open>AddSound\<close> builds at counter \<open>i\<close>.\<close>

definition file_name :: "string \<Rightarrow> int \<Rightarrow> int \<Rightarrow> string" where
  "file_name f variants i =
     (if variants = 1 then f @ ''.ogg'' else f @ ''-'' @ strconv_Itoa (i + 1) @ ''.ogg'')"

section \<open>Sample inputs\<close>

text \<open>
  \<open>nokia.GameSize\<close> is a parameter of the model. The runs below use a board of
  84 by 48, the size of the display the game is written for.
\<close>

definition demo_board :: Point where
  "demo_board = image_Pt 84 48"

definition two_dusts :: memory where
  "two_dusts = \<lparr>heap = [\<lparr>Coords = \<lparr>X = 7, Y = 47\<rparr>\<rparr>, \<lparr>Coords = \<lparr>X = 11, Y = 48\<rparr>\<rparr>],
                 arr = [0, 1], len = 2\<rparr>"

definition five_dusts :: memory where
  "five_dusts = \<lparr>heap = [\<lparr>Coords = \<lparr>X = 7, Y = 0\<rparr>\<rparr>, \<lparr>Coords = \<lparr>X = 7, Y = 1\<rparr>\<rparr>,
                          \<lparr>Coords = \<lparr>X = 7, Y = 2\<rparr>\<rparr>, \<lparr>Coords = \<lparr>X = 7, Y = 3\<rparr>\<rparr>,
                          \<lparr>Coords = \<lparr>X = 7, Y = 4\<rparr>\<rparr>],
                  arr = [0, 1, 2, 3, 4], len = 5\<rparr>"

definition demo_pool :: Sound where
  "demo_pool = \<lparr>Audio =
      [\<lparr>source = Once \<lparr>samples = [1], Length = 1\<rparr>, pvolume = Finite 1,
          playing = False, position = 0\<rparr>,
       \<lparr>source = Once \<lparr>samples = [2], Length = 1\<rparr>, pvolume = Finite 1,
          playing = False, position = 0\<rparr>,
       \<lparr>source = Once \<lparr>samples = [3], Length = 1\<rparr>, pvolume = Finite 1,
          playing = False, position = 0\<rparr>],
      LastPlayed = 0, Volume = Finite 0\<rparr>"

definition single_pool :: Sound where
  "single_pool = \<lparr>Audio =
      [\<lparr>source = Once \<lparr>samples = [4], Length = 1\<rparr>, pvolume = Finite 1,
          playing = False, position = 0\<rparr>],
      LastPlayed = 0, Volume = Finite 0\<rparr>"

section \<open>Properties of the particle collection\<close>

subsection \<open>Length of the collection and of the heap\<close>

lemma remove_at_len: "remove_at i m = Inr m' \<Longrightarrow> len m' \<le> len m"
  by (auto simp: remove_at_def split: if_splits)

lemma loop_body_len: "loop_body i m = Inr m' \<Longrightarrow> len m' \<le> len m"
  by (auto simp: loop_body_def Let_def dest: remove_at_len split: if_splits)

lemma range_loop_len: "range_loop js m = Inr m' \<Longrightarrow> len m' \<le> len m"
proof (induction js arbitrary: m)
  case Nil
  then show ?case by simp
next
  case (Cons i js)
  then obtain m1 where b: "loop_body i m = Inr m1" and r: "range_loop js m1 = Inr m'"
    by (auto split: sum.splits)
  from Cons.IH [OF r] loop_body_len [OF b] show ?case by simp
qed

lemma spawn_len: "spawn gs r m = Inr m' \<Longrightarrow> len m \<le> maxDusts \<Longrightarrow> len m' \<le> maxDusts"
  by (auto simp: spawn_def append_ptr_def split: if_splits sum.splits)

lemma Dusts_Update_len:
  "Dusts_Update gs r m = Inr m' \<Longrightarrow> len m \<le> maxDusts \<Longrightarrow> len m' \<le> maxDusts"
  unfolding Dusts_Update_def
  by (auto split: sum.splits dest!: spawn_len range_loop_len)

lemma ticks_len: "ticks gs rs m = Inr m' \<Longrightarrow> len m \<le> maxDusts \<Longrightarrow> len m' \<le> maxDusts"
proof (induction rs arbitrary: m)
  case Nil
  then show ?case by simp
next
  case (Cons r rs)
  then obtain m1 where u: "Dusts_Update gs r m = Inr m1" and t: "ticks gs rs m1 = Inr m'"
    by (auto split: sum.splits)
  from Cons.IH [OF t] Dusts_Update_len [OF u Cons.prems(2)] show ?case .
qed

lemma remove_at_heap: "remove_at i m = Inr m' \<Longrightarrow> heap m' = heap m"
  by (auto simp: remove_at_def split: if_splits)

lemma loop_body_heap_length: "loop_body i m = Inr m' \<Longrightarrow> length (heap m') = length (heap m)"
  by (auto simp: loop_body_def Let_def dest!: remove_at_heap split: if_splits)

lemma range_loop_heap_length: "range_loop js m = Inr m' \<Longrightarrow> length (heap m') = length (heap m)"
proof (induction js arbitrary: m)
  case Nil
  then show ?case by simp
next
  case (Cons i js)
  then obtain m1 where b: "loop_body i m = Inr m1" and r: "range_loop js m1 = Inr m'"
    by (auto split: sum.splits)
  from Cons.IH [OF r] loop_body_heap_length [OF b] show ?case by simp
qed

lemma spawn_heap_length:
  "spawn gs r m = Inr m' \<Longrightarrow>
   length (heap m') = length (heap m) + (if len m < maxDusts then 1 else 0)"
  by (auto simp: spawn_def append_ptr_def split: if_splits sum.splits)

lemma Dusts_Update_heap_length:
  "Dusts_Update gs r m = Inr m' \<Longrightarrow>
   length (heap m') = length (heap m) + (if len m < maxDusts then 1 else 0)"
  unfolding Dusts_Update_def
  by (auto split: sum.splits dest!: spawn_heap_length range_loop_heap_length)

subsection \<open>The x coordinate\<close>

lemma Dust_Update_X: "X (Coords (Dust_Update d)) = X (Coords d)"
  by (simp add: Dust_Update_def)

lemma loop_body_X:
  "loop_body i m = Inr m' \<Longrightarrow> X (Coords (heap m' ! p)) = X (Coords (heap m ! p))"
  by (auto simp: loop_body_def Let_def nth_list_update Dust_Update_X
           dest!: remove_at_heap split: if_splits)

lemma range_loop_X:
  "range_loop js m = Inr m' \<Longrightarrow> X (Coords (heap m' ! p)) = X (Coords (heap m ! p))"
proof (induction js arbitrary: m)
  case Nil
  then show ?case by simp
next
  case (Cons i js)
  then obtain m1 where b: "loop_body i m = Inr m1" and r: "range_loop js m1 = Inr m'"
    by (auto split: sum.splits)
  from Cons.IH [OF r] loop_body_X [OF b] show ?case by simp
qed

lemma spawn_X:
  "spawn gs r m = Inr m' \<Longrightarrow> p < length (heap m) \<Longrightarrow>
   X (Coords (heap m' ! p)) = X (Coords (heap m ! p))"
  by (auto simp: spawn_def append_ptr_def nth_append split: if_splits sum.splits)

lemma Dusts_Update_X:
  assumes "Dusts_Update gs r m = Inr m'" and "p < length (heap m)"
  shows "p < length (heap m') \<and> X (Coords (heap m' ! p)) = X (Coords (heap m ! p))"
proof -
  from assms(1) obtain m1 where s: "spawn gs r m = Inr m1"
    and l: "range_loop [0 ..< len m1] m1 = Inr m'"
    by (auto simp: Dusts_Update_def split: sum.splits)
  from Dusts_Update_heap_length [OF assms(1)] assms(2) have "p < length (heap m')" by simp
  moreover from range_loop_X [OF l] spawn_X [OF s assms(2)]
  have "X (Coords (heap m' ! p)) = X (Coords (heap m ! p))" by simp
  ultimately show ?thesis by simp
qed

lemma ticks_X:
  "ticks gs rs m = Inr m' \<Longrightarrow> p < length (heap m) \<Longrightarrow>
   p < length (heap m') \<and> X (Coords (heap m' ! p)) = X (Coords (heap m ! p))"
proof (induction rs arbitrary: m)
  case Nil
  then show ?case by simp
next
  case (Cons r rs)
  then obtain m1 where u: "Dusts_Update gs r m = Inr m1" and t: "ticks gs rs m1 = Inr m'"
    by (auto split: sum.splits)
  from Dusts_Update_X [OF u Cons.prems(2)] Cons.IH [OF t] show ?case by simp
qed

subsection \<open>A pass in which nothing expires\<close>

lemma wrap_int_id: "- (2 ^ 63) \<le> v \<Longrightarrow> v < 2 ^ 63 \<Longrightarrow> wrap_int v = v"
  by (simp add: wrap_int_def)

lemma loop_body_alive:
  assumes "i < length (arr m)" and "arr m ! i < length (heap m)"
    and "0 < Y (Coords (heap m ! (arr m ! i)))"
    and "Y (Coords (heap m ! (arr m ! i))) < 2 ^ 63"
  shows "loop_body i m = Inr (m\<lparr>heap := (heap m)[arr m ! i := Dust_Update (heap m ! (arr m ! i))]\<rparr>)"
    and "Y (Coords (Dust_Update (heap m ! (arr m ! i)))) = Y (Coords (heap m ! (arr m ! i))) - 1"
proof -
  have w: "wrap_int (Y (Coords (heap m ! (arr m ! i))) - 1) = Y (Coords (heap m ! (arr m ! i))) - 1"
    using assms(3,4) by (intro wrap_int_id) simp_all
  then show "Y (Coords (Dust_Update (heap m ! (arr m ! i)))) = Y (Coords (heap m ! (arr m ! i))) - 1"
    by (simp add: Dust_Update_def)
  with assms show "loop_body i m = Inr (m\<lparr>heap := (heap m)[arr m ! i := Dust_Update (heap m ! (arr m ! i))]\<rparr>)"
    by (simp add: loop_body_def Let_def)
qed

lemma range_loop_alive:
  assumes "distinct (map (\<lambda>i. arr m ! i) js)"
    and "\<forall>i \<in> set js. i < length (arr m) \<and> arr m ! i < length (heap m)
            \<and> 0 < Y (Coords (heap m ! (arr m ! i)))
            \<and> Y (Coords (heap m ! (arr m ! i))) < 2 ^ 63"
  shows "\<exists>m'. range_loop js m = Inr m' \<and> arr m' = arr m \<and> len m' = len m
           \<and> length (heap m') = length (heap m)
           \<and> (\<forall>p < length (heap m). Y (Coords (heap m' ! p)) =
                 (if p \<in> (\<lambda>i. arr m ! i) ` set js then Y (Coords (heap m ! p)) - 1
                  else Y (Coords (heap m ! p))))"
  using assms
proof (induction js arbitrary: m)
  case Nil
  then show ?case by simp
next
  case (Cons i js)
  let ?d = "arr m ! i"
  let ?m1 = "m\<lparr>heap := (heap m)[?d := Dust_Update (heap m ! ?d)]\<rparr>"
  have d: "i < length (arr m)" "?d < length (heap m)" "0 < Y (Coords (heap m ! ?d))"
    "Y (Coords (heap m ! ?d)) < 2 ^ 63"
    using Cons.prems(2) by simp_all
  have b: "loop_body i m = Inr ?m1" and y: "Y (Coords (Dust_Update (heap m ! ?d))) = Y (Coords (heap m ! ?d)) - 1"
    using loop_body_alive [OF d] by simp_all
  have notin: "?d \<notin> (\<lambda>j. arr m ! j) ` set js"
    using Cons.prems(1) by auto
  have p1: "distinct (map (\<lambda>j. arr ?m1 ! j) js)"
    using Cons.prems(1) by simp
  have p2: "\<forall>j \<in> set js. j < length (arr ?m1) \<and> arr ?m1 ! j < length (heap ?m1)
            \<and> 0 < Y (Coords (heap ?m1 ! (arr ?m1 ! j)))
            \<and> Y (Coords (heap ?m1 ! (arr ?m1 ! j))) < 2 ^ 63"
  proof
    fix j assume j: "j \<in> set js"
    then have "arr m ! j \<noteq> ?d" using notin by (auto simp: image_iff)
    then show "j < length (arr ?m1) \<and> arr ?m1 ! j < length (heap ?m1)
            \<and> 0 < Y (Coords (heap ?m1 ! (arr ?m1 ! j)))
            \<and> Y (Coords (heap ?m1 ! (arr ?m1 ! j))) < 2 ^ 63"
      using Cons.prems(2) j by simp
  qed
  from Cons.IH [OF p1 p2] obtain m' where
    r: "range_loop js ?m1 = Inr m'" and a: "arr m' = arr m" and l: "len m' = len m"
    and h: "length (heap m') = length (heap m)"
    and v: "\<forall>p < length (heap m). Y (Coords (heap m' ! p)) =
                 (if p \<in> (\<lambda>j. arr m ! j) ` set js then Y (Coords (heap ?m1 ! p)) - 1
                  else Y (Coords (heap ?m1 ! p)))"
    by auto
  have "range_loop (i # js) m = Inr m'" using b r by simp
  moreover have "\<forall>p < length (heap m). Y (Coords (heap m' ! p)) =
                 (if p \<in> (\<lambda>j. arr m ! j) ` set (i # js) then Y (Coords (heap m ! p)) - 1
                  else Y (Coords (heap m ! p)))"
  proof (intro allI impI)
    fix p assume p: "p < length (heap m)"
    show "Y (Coords (heap m' ! p)) =
                 (if p \<in> (\<lambda>j. arr m ! j) ` set (i # js) then Y (Coords (heap m ! p)) - 1
                  else Y (Coords (heap m ! p)))"
    proof (cases "p = ?d")
      case True
      then show ?thesis using v p notin y by simp
    next
      case False
      then show ?thesis using v p by auto
    qed
  qed
  ultimately show ?case using a l h by blast
qed

lemma held_append_ptr:
  "len m \<le> length (arr m) \<Longrightarrow> held (append_ptr m p) = held m @ [p]"
  by (auto simp: held_def append_ptr_def take_Suc_conv_app_nth upd_conv_take_nth_drop)

lemma map_nth_held: "len m \<le> length (arr m) \<Longrightarrow> map (\<lambda>i. arr m ! i) [0 ..< len m] = held m"
  unfolding held_def by (intro nth_equalityI) simp_all

subsection \<open>The program keeps its states valid\<close>

lemma take_prefix_exact: "length xs = n \<Longrightarrow> take n (xs @ zs) = xs"
  by simp

lemma valid_append_ptr:
  assumes "valid m"
  shows "valid (append_ptr (m\<lparr>heap := heap m @ [d]\<rparr>) (length (heap m)))"
proof -
  let ?m0 = "m\<lparr>heap := heap m @ [d]\<rparr>"
  have l: "len ?m0 \<le> length (arr ?m0)" using assms by (simp add: valid_def)
  have h: "held (append_ptr ?m0 (length (heap m))) = held m @ [length (heap m)]"
    using held_append_ptr [OF l] by (simp add: held_def)
  have fresh: "length (heap m) \<notin> set (held m)"
    using assms by (auto simp: valid_def held_def dest: in_set_takeD)
  have "distinct (held m @ [length (heap m)])"
    using assms fresh by (simp add: valid_def)
  moreover have "len (append_ptr ?m0 (length (heap m))) \<le> length (arr (append_ptr ?m0 (length (heap m))))"
    using l by (auto simp: append_ptr_def)
  moreover have "\<forall>p \<in> set (arr (append_ptr ?m0 (length (heap m)))).
                   p < length (heap (append_ptr ?m0 (length (heap m))))"
  proof
    fix p assume "p \<in> set (arr (append_ptr ?m0 (length (heap m))))"
    then have "p \<in> insert (length (heap m)) (set (arr m))"
      using set_update_subset_insert [of "arr m" "len m" "length (heap m)"]
      by (auto simp: append_ptr_def split: if_splits dest: in_set_takeD)
    then show "p < length (heap (append_ptr ?m0 (length (heap m))))"
      using assms by (auto simp: append_ptr_def valid_def less_Suc_eq)
  qed
  ultimately show ?thesis using h by (simp add: valid_def)
qed

lemma valid_spawn: "valid m \<Longrightarrow> spawn gs r m = Inr m' \<Longrightarrow> valid m'"
  by (auto simp: spawn_def valid_append_ptr split: if_splits sum.splits)

lemma valid_remove_at:
  assumes "valid m" and "remove_at i m = Inr m'"
  shows "valid m'"
proof -
  have i: "i + 1 \<le> len m" and m': "m' = m\<lparr>arr := take i (arr m) @ drop (i + 1) (take (len m) (arr m))
                          @ drop (len m - 1) (arr m), len := len m - 1\<rparr>"
    using assms(2) by (auto simp: remove_at_def split: if_splits)
  have l: "len m \<le> length (arr m)" using assms(1) by (simp add: valid_def)
  have hm: "held m = take i (arr m) @ (arr m ! i) # drop (i + 1) (take (len m) (arr m))"
  proof -
    have "i < length (take (len m) (arr m))" using i l by simp
    from id_take_nth_drop [OF this] show ?thesis
      using i by (simp add: held_def min_def)
  qed
  have h': "held m' = take i (arr m) @ drop (i + 1) (take (len m) (arr m))"
  proof -
    have n: "length (take i (arr m) @ drop (i + 1) (take (len m) (arr m))) = len m - 1"
      using i l by simp
    have "take (len m - 1) ((take i (arr m) @ drop (i + 1) (take (len m) (arr m)))
             @ drop (len m - 1) (arr m)) = take i (arr m) @ drop (i + 1) (take (len m) (arr m))"
      using n by (rule take_prefix_exact)
    then show ?thesis by (simp add: m' held_def)
  qed
  have "distinct (held m')" using assms(1) unfolding h' valid_def hm by auto
  moreover have "len m' \<le> length (arr m')" using i l by (simp add: m')
  moreover have "\<forall>p \<in> set (arr m'). p < length (heap m')"
    using assms(1) by (auto simp: m' valid_def dest!: in_set_takeD in_set_dropD)
  ultimately show ?thesis by (simp add: valid_def)
qed

lemma valid_loop_body: "valid m \<Longrightarrow> loop_body i m = Inr m' \<Longrightarrow> valid m'"
proof -
  assume v: "valid m" and b: "loop_body i m = Inr m'"
  let ?m1 = "m\<lparr>heap := (heap m)[arr m ! i := Dust_Update (heap m ! (arr m ! i))]\<rparr>"
  have v1: "valid ?m1" using v by (simp add: valid_def held_def)
  from b have "m' = ?m1 \<or> remove_at i ?m1 = Inr m'"
    by (auto simp: loop_body_def Let_def split: if_splits)
  then show "valid m'" using v1 valid_remove_at by blast
qed

lemma valid_range_loop: "valid m \<Longrightarrow> range_loop js m = Inr m' \<Longrightarrow> valid m'"
proof (induction js arbitrary: m)
  case Nil
  then show ?case by simp
next
  case (Cons i js)
  then obtain m1 where b: "loop_body i m = Inr m1" and r: "range_loop js m1 = Inr m'"
    by (auto split: sum.splits)
  from Cons.IH [OF valid_loop_body [OF Cons.prems(1) b] r] show ?case .
qed

lemma valid_Dusts_Update: "valid m \<Longrightarrow> Dusts_Update gs r m = Inr m' \<Longrightarrow> valid m'"
  unfolding Dusts_Update_def
  by (auto split: sum.splits dest: valid_spawn valid_range_loop)

lemma valid_ticks: "valid m \<Longrightarrow> ticks gs rs m = Inr m' \<Longrightarrow> valid m'"
proof (induction rs arbitrary: m)
  case Nil
  then show ?case by simp
next
  case (Cons r rs)
  then obtain m1 where u: "Dusts_Update gs r m = Inr m1" and t: "ticks gs rs m1 = Inr m'"
    by (auto split: sum.splits)
  from Cons.IH [OF valid_Dusts_Update [OF Cons.prems(1) u] t] show ?case .
qed

lemma valid_empty_memory: "valid empty_memory"
  by (simp add: valid_def empty_memory_def held_def)

subsection \<open>The advance pass\<close>

text \<open>
  When the collection is full and every held Dust has a positive y, nothing is
  spawned and nothing expires: the pass visits every held Dust once.
\<close>

lemma full_collection_advanced:
  assumes v: "valid m" and full: "maxDusts \<le> len m"
    and alive: "\<forall>p \<in> set (held m). 0 < Y (Coords (heap m ! p)) \<and> Y (Coords (heap m ! p)) < 2 ^ 63"
  shows "\<exists>m'. Dusts_Update gameSize r m = Inr m'
           \<and> held m' = held m \<and> length (heap m') = length (heap m)
           \<and> (\<forall>p \<in> set (held m). Y (Coords (heap m' ! p)) = Y (Coords (heap m ! p)) - 1)"
proof -
  have s: "spawn gameSize r m = Inr m" using full by (simp add: spawn_def)
  have l: "len m \<le> length (arr m)" using v by (simp add: valid_def)
  have mp: "map (\<lambda>i. arr m ! i) [0 ..< len m] = held m" using map_nth_held [OF l] .
  have img: "(\<lambda>i. arr m ! i) ` set [0 ..< len m] = set (held m)"
    using mp by (metis set_map)
  have old: "\<forall>p \<in> set (held m). p < length (heap m)"
    using v by (auto simp: valid_def held_def dest: in_set_takeD)
  have d: "distinct (map (\<lambda>i. arr m ! i) [0 ..< len m])"
    using v mp by (simp add: valid_def)
  have a': "\<forall>i \<in> set [0 ..< len m]. i < length (arr m) \<and> arr m ! i < length (heap m)
            \<and> 0 < Y (Coords (heap m ! (arr m ! i)))
            \<and> Y (Coords (heap m ! (arr m ! i))) < 2 ^ 63"
  proof
    fix i assume i: "i \<in> set [0 ..< len m]"
    have "arr m ! i \<in> (\<lambda>i. arr m ! i) ` set [0 ..< len m]"
      using i by (rule imageI)
    then have "arr m ! i \<in> set (held m)" unfolding img .
    with alive old have "arr m ! i < length (heap m)
            \<and> 0 < Y (Coords (heap m ! (arr m ! i)))
            \<and> Y (Coords (heap m ! (arr m ! i))) < 2 ^ 63" by blast
    moreover have "i < length (arr m)" using i l by simp
    ultimately show "i < length (arr m) \<and> arr m ! i < length (heap m)
            \<and> 0 < Y (Coords (heap m ! (arr m ! i)))
            \<and> Y (Coords (heap m ! (arr m ! i))) < 2 ^ 63" by simp
  qed
  from range_loop_alive [OF d a'] obtain m' where
    r: "range_loop [0 ..< len m] m = Inr m'" and ar: "arr m' = arr m" and le: "len m' = len m"
    and hl: "length (heap m') = length (heap m)"
    and ys: "\<forall>p < length (heap m). Y (Coords (heap m' ! p)) =
                 (if p \<in> (\<lambda>i. arr m ! i) ` set [0 ..< len m] then Y (Coords (heap m ! p)) - 1
                  else Y (Coords (heap m ! p)))"
    by blast
  have u: "Dusts_Update gameSize r m = Inr m'"
    using s r by (simp add: Dusts_Update_def)
  have c1: "held m' = held m" using ar le by (simp add: held_def)
  have c4: "\<forall>p \<in> set (held m). Y (Coords (heap m' ! p)) = Y (Coords (heap m ! p)) - 1"
    using ys old unfolding img by auto
  from u c1 hl c4 show ?thesis by blast
qed

text \<open>
  Claim C1: in each call of \<open>Update\<close>, every Dust held at the start of the advance
  pass has its y decremented by exactly 1, and removing expired entries during the
  pass neither skips nor double-processes an entry nor reads stale storage.

  The code does not do this. On a board of 84 by 48 the collection, started empty,
  holds five Dusts with y from 0 to 4 after 49 calls. In the next call the first
  Dust expires and is removed while the loop is at its index; the entries move one
  slot down under the loop. The second Dust is never visited and keeps y = 1, and
  the fifth is visited twice, the second time through slot 4, which is no longer
  part of the slice: its y falls from 4 to 2. A pass in which no Dust expires
  does advance each held Dust once, as the lemma above shows.
\<close>

theorem Update_skips_and_repeats:
  "ticks demo_board (replicate 49 7) empty_memory = Inr five_dusts
   \<and> Dusts_Update demo_board 7 five_dusts =
       Inr \<lparr>heap = [\<lparr>Coords = \<lparr>X = 7, Y = - 1\<rparr>\<rparr>, \<lparr>Coords = \<lparr>X = 7, Y = 1\<rparr>\<rparr>,
                    \<lparr>Coords = \<lparr>X = 7, Y = 1\<rparr>\<rparr>, \<lparr>Coords = \<lparr>X = 7, Y = 2\<rparr>\<rparr>,
                    \<lparr>Coords = \<lparr>X = 7, Y = 2\<rparr>\<rparr>],
            arr = [1, 2, 3, 4, 4], len = 4\<rparr>"
  by code_simp

text \<open>
  Claim C3: the spawn check runs once, before the advance pass, and a Dust spawned in
  a tick is not advanced in that tick, so that its y is still the board height
  plus 1 right after the call.

  The first half holds, the second does not: the loop ranges over the slice as it
  is after the spawn, new entry included. On the board of height 48 the Dust
  spawned into the empty collection is at y = 48 after the call, not at 49.
\<close>

theorem spawned_dust_below_spawn_height:
  "Dusts_Update demo_board 7 empty_memory =
     Inr \<lparr>heap = [\<lparr>Coords = \<lparr>X = 7, Y = 48\<rparr>\<rparr>], arr = [0], len = 1\<rparr>
   \<and> Y demo_board + 1 = 49"
  by code_simp

text \<open>
  Claim C3 as the code has it: when the collection has room, the spawn step appends
  one new Dust before the pass, and the pass advances it in the same call. In a
  call in which no held Dust expires (each has a positive y), the new Dust is the
  last entry, its y right after the call is the board height, and every Dust held
  before is one unit higher up. The board has a positive width, as \<open>rand.Intn\<close>
  demands, and a height whose successor is an \<open>int\<close>.
\<close>

theorem spawned_dust_advanced:
  assumes v: "valid m" and room: "len m < maxDusts"
    and w: "0 < X gameSize" and h0: "0 \<le> Y gameSize" and h1: "Y gameSize < 2 ^ 63 - 1"
    and alive: "\<forall>p \<in> set (held m). 0 < Y (Coords (heap m ! p)) \<and> Y (Coords (heap m ! p)) < 2 ^ 63"
  shows "\<exists>m'. Dusts_Update gameSize r m = Inr m'
           \<and> held m' = held m @ [length (heap m)]
           \<and> length (heap m') = length (heap m) + 1
           \<and> Y (Coords (heap m' ! length (heap m))) = Y gameSize
           \<and> (\<forall>p \<in> set (held m). Y (Coords (heap m' ! p)) = Y (Coords (heap m ! p)) - 1)"
proof -
  define new where "new = \<lparr>Coords = image_Pt (r mod X gameSize) (wrap_int (Y gameSize + 1))\<rparr>"
  define m1 where "m1 = append_ptr (m\<lparr>heap := heap m @ [new]\<rparr>) (length (heap m))"
  have s: "spawn gameSize r m = Inr m1"
    using room w by (simp add: spawn_def rand_Intn_def m1_def new_def)
  have v1: "valid m1" unfolding m1_def using v by (rule valid_append_ptr)
  have l: "len m \<le> length (arr m)" using v by (simp add: valid_def)
  have h: "held m1 = held m @ [length (heap m)]"
    unfolding m1_def
    using held_append_ptr [of "m\<lparr>heap := heap m @ [new]\<rparr>" "length (heap m)"] l
    by (simp add: held_def)
  have hp: "heap m1 = heap m @ [new]" by (simp add: m1_def append_ptr_def)
  have ynew: "Y (Coords new) = Y gameSize + 1"
    using h0 h1 by (simp add: new_def image_Pt_def wrap_int_id)
  have l1: "len m1 \<le> length (arr m1)" using v1 by (simp add: valid_def)
  have mp: "map (\<lambda>i. arr m1 ! i) [0 ..< len m1] = held m @ [length (heap m)]"
    using map_nth_held [OF l1] h by simp
  have img: "(\<lambda>i. arr m1 ! i) ` set [0 ..< len m1] = set (held m @ [length (heap m)])"
    using mp by (metis set_map)
  have old: "\<forall>p \<in> set (held m). p < length (heap m)"
    using v by (auto simp: valid_def held_def dest: in_set_takeD)
  have d: "distinct (map (\<lambda>i. arr m1 ! i) [0 ..< len m1])"
    using v1 map_nth_held [OF l1] by (simp add: valid_def)
  have a: "\<forall>p \<in> set (held m @ [length (heap m)]). p < length (heap m1)
            \<and> 0 < Y (Coords (heap m1 ! p)) \<and> Y (Coords (heap m1 ! p)) < 2 ^ 63"
    using alive old ynew h0 h1 unfolding hp by (auto simp: nth_append)
  have a': "\<forall>i \<in> set [0 ..< len m1]. i < length (arr m1) \<and> arr m1 ! i < length (heap m1)
            \<and> 0 < Y (Coords (heap m1 ! (arr m1 ! i)))
            \<and> Y (Coords (heap m1 ! (arr m1 ! i))) < 2 ^ 63"
  proof
    fix i assume i: "i \<in> set [0 ..< len m1]"
    have "arr m1 ! i \<in> (\<lambda>i. arr m1 ! i) ` set [0 ..< len m1]"
      using i by (rule imageI)
    then have "arr m1 ! i \<in> set (held m @ [length (heap m)])" unfolding img .
    with a have "arr m1 ! i < length (heap m1)
            \<and> 0 < Y (Coords (heap m1 ! (arr m1 ! i)))
            \<and> Y (Coords (heap m1 ! (arr m1 ! i))) < 2 ^ 63" by (rule bspec)
    moreover have "i < length (arr m1)" using i l1 by simp
    ultimately show "i < length (arr m1) \<and> arr m1 ! i < length (heap m1)
            \<and> 0 < Y (Coords (heap m1 ! (arr m1 ! i)))
            \<and> Y (Coords (heap m1 ! (arr m1 ! i))) < 2 ^ 63" by simp
  qed
  from range_loop_alive [OF d a'] obtain m' where
    r: "range_loop [0 ..< len m1] m1 = Inr m'" and ar: "arr m' = arr m1" and le: "len m' = len m1"
    and hl: "length (heap m') = length (heap m1)"
    and ys: "\<forall>p < length (heap m1). Y (Coords (heap m' ! p)) =
                 (if p \<in> (\<lambda>i. arr m1 ! i) ` set [0 ..< len m1] then Y (Coords (heap m1 ! p)) - 1
                  else Y (Coords (heap m1 ! p)))"
    by blast
  have u: "Dusts_Update gameSize r m = Inr m'"
    using s r by (simp add: Dusts_Update_def)
  have c1: "held m' = held m @ [length (heap m)]"
    using h ar le by (simp add: held_def)
  have c2: "length (heap m') = length (heap m) + 1" using hl hp by simp
  have c3: "Y (Coords (heap m' ! length (heap m))) = Y gameSize"
    using ys ynew unfolding img hp by simp
  have c4: "\<forall>p \<in> set (held m). Y (Coords (heap m' ! p)) = Y (Coords (heap m ! p)) - 1"
    using ys old unfolding img hp by (auto simp: nth_append)
  from u c1 c2 c3 c4 show ?thesis by blast
qed

theorem spawned_dust_advanced_witness:
  "valid two_dusts \<and> len two_dusts < maxDusts \<and> 0 < X demo_board \<and> 0 \<le> Y demo_board
   \<and> Y demo_board < 2 ^ 63 - 1
   \<and> Dusts_Update demo_board 100 two_dusts =
        Inr \<lparr>heap = [\<lparr>Coords = \<lparr>X = 7, Y = 46\<rparr>\<rparr>, \<lparr>Coords = \<lparr>X = 11, Y = 47\<rparr>\<rparr>,
                     \<lparr>Coords = \<lparr>X = 16, Y = 48\<rparr>\<rparr>],
             arr = [0, 1, 2], len = 3\<rparr>
   \<and> Y (Coords (\<lparr>Coords = \<lparr>X = 16, Y = 48\<rparr>\<rparr>)) = Y demo_board"
proof -
  have v: "valid two_dusts" by (simp add: valid_def two_dusts_def held_def)
  have r: "len two_dusts < maxDusts" by (simp add: two_dusts_def maxDusts_def)
  have b: "0 < X demo_board" "0 \<le> Y demo_board" "Y demo_board < 2 ^ 63 - 1"
    by (simp_all add: demo_board_def image_Pt_def)
  have a: "\<forall>p \<in> set (held two_dusts).
      0 < Y (Coords (heap two_dusts ! p)) \<and> Y (Coords (heap two_dusts ! p)) < 2 ^ 63"
    by (simp add: two_dusts_def held_def)
  have e: "Dusts_Update demo_board 100 two_dusts =
        Inr \<lparr>heap = [\<lparr>Coords = \<lparr>X = 7, Y = 46\<rparr>\<rparr>, \<lparr>Coords = \<lparr>X = 11, Y = 47\<rparr>\<rparr>,
                     \<lparr>Coords = \<lparr>X = 16, Y = 48\<rparr>\<rparr>],
             arr = [0, 1, 2], len = 3\<rparr>"
    by code_simp
  from spawned_dust_advanced [OF v r b a, of 100] e
  have "Y (Coords (\<lparr>Coords = \<lparr>X = 16, Y = 48\<rparr>\<rparr>)) = Y demo_board"
    by (auto simp: two_dusts_def)
  with v r b e show ?thesis by blast
qed

text \<open>
  Claim C4: every Dust, after exactly board height + 2 calls of \<open>Update\<close> counted
  from the call that spawned it, has a negative y and is no longer in the collection.

  The code does not do this. On the board of 84 by 48 the second Dust (address 1)
  is spawned by the second call. The call that removes the first Dust skips it, so
  after call 51, which is the 50th when the call that spawned it is counted as the
  first, it is still held, at y = 0.
\<close>

theorem second_dust_outlives_span:
  "ticks demo_board (replicate 1 7) empty_memory =
     Inr \<lparr>heap = [\<lparr>Coords = \<lparr>X = 7, Y = 48\<rparr>\<rparr>], arr = [0], len = 1\<rparr>
   \<and> ticks demo_board (replicate 2 7) empty_memory =
     Inr \<lparr>heap = [\<lparr>Coords = \<lparr>X = 7, Y = 47\<rparr>\<rparr>, \<lparr>Coords = \<lparr>X = 7, Y = 48\<rparr>\<rparr>],
          arr = [0, 1], len = 2\<rparr>
   \<and> ticks demo_board (replicate (1 + (48 + 2)) 7) empty_memory =
     Inr \<lparr>heap = [\<lparr>Coords = \<lparr>X = 7, Y = - 1\<rparr>\<rparr>, \<lparr>Coords = \<lparr>X = 7, Y = 0\<rparr>\<rparr>,
                  \<lparr>Coords = \<lparr>X = 7, Y = 0\<rparr>\<rparr>, \<lparr>Coords = \<lparr>X = 7, Y = 1\<rparr>\<rparr>,
                  \<lparr>Coords = \<lparr>X = 7, Y = 1\<rparr>\<rparr>, \<lparr>Coords = \<lparr>X = 7, Y = 48\<rparr>\<rparr>],
          arr = [1, 2, 3, 4, 5], len = 5\<rparr>"
  by code_simp

text \<open>
  Claim C5: started from the empty collection, after any sequence of calls of
  \<open>Update\<close> the collection holds at most 5 Dusts at the start of the next tick;
  that tick allocates one Dust when fewer than 5 are held and none otherwise.
\<close>

theorem collection_within_capacity:
  "ticks gameSize rs empty_memory = Inr m \<Longrightarrow>
   length (held m) \<le> 5
   \<and> (\<forall>r m'. Dusts_Update gameSize r m = Inr m' \<longrightarrow>
         length (heap m') = length (heap m) + (if length (held m) < 5 then 1 else 0))"
proof -
  assume t: "ticks gameSize rs empty_memory = Inr m"
  have "len empty_memory \<le> maxDusts" by (simp add: empty_memory_def)
  from ticks_len [OF t this] have l: "len m \<le> 5" by (simp add: maxDusts_def)
  from valid_ticks [OF valid_empty_memory t] have h: "length (held m) = len m"
    by (simp add: valid_def held_def)
  from l h Dusts_Update_heap_length [of gameSize _ m] show ?thesis
    by (simp add: maxDusts_def)
qed

theorem collection_within_capacity_witness:
  "ticks demo_board (replicate 7 7) empty_memory =
     Inr \<lparr>heap = [\<lparr>Coords = \<lparr>X = 7, Y = 42\<rparr>\<rparr>, \<lparr>Coords = \<lparr>X = 7, Y = 43\<rparr>\<rparr>,
                  \<lparr>Coords = \<lparr>X = 7, Y = 44\<rparr>\<rparr>, \<lparr>Coords = \<lparr>X = 7, Y = 45\<rparr>\<rparr>,
                  \<lparr>Coords = \<lparr>X = 7, Y = 46\<rparr>\<rparr>],
          arr = [0, 1, 2, 3, 4], len = 5\<rparr>
   \<and> length (held \<lparr>heap = [\<lparr>Coords = \<lparr>X = 7, Y = 42\<rparr>\<rparr>, \<lparr>Coords = \<lparr>X = 7, Y = 43\<rparr>\<rparr>,
                  \<lparr>Coords = \<lparr>X = 7, Y = 44\<rparr>\<rparr>, \<lparr>Coords = \<lparr>X = 7, Y = 45\<rparr>\<rparr>,
                  \<lparr>Coords = \<lparr>X = 7, Y = 46\<rparr>\<rparr>],
          arr = [0, 1, 2, 3, 4], len = 5\<rparr>) \<le> 5"
proof -
  have t: "ticks demo_board (replicate 7 7) empty_memory =
     Inr \<lparr>heap = [\<lparr>Coords = \<lparr>X = 7, Y = 42\<rparr>\<rparr>, \<lparr>Coords = \<lparr>X = 7, Y = 43\<rparr>\<rparr>,
                  \<lparr>Coords = \<lparr>X = 7, Y = 44\<rparr>\<rparr>, \<lparr>Coords = \<lparr>X = 7, Y = 45\<rparr>\<rparr>,
                  \<lparr>Coords = \<lparr>X = 7, Y = 46\<rparr>\<rparr>],
          arr = [0, 1, 2, 3, 4], len = 5\<rparr>"
    by code_simp
  from collection_within_capacity [OF t] t show ?thesis by blast
qed

text \<open>
  Claim C10: \<open>Dust.Update\<close> changes the y coordinate only, and the x coordinate of
  every Dust stays what it is through any number of calls of \<open>Dusts.Update\<close>.
\<close>

theorem Update_keeps_x:
  "X (Coords (Dust_Update d)) = X (Coords d)
   \<and> (ticks gameSize rs m = Inr m' \<longrightarrow> p < length (heap m) \<longrightarrow>
        p < length (heap m') \<and> X (Coords (heap m' ! p)) = X (Coords (heap m ! p)))"
  using ticks_X [of gameSize rs m m' p] by (simp add: Dust_Update_X)

theorem Update_keeps_x_witness:
  "ticks demo_board [20, 20, 20] two_dusts =
     Inr \<lparr>heap = [\<lparr>Coords = \<lparr>X = 7, Y = 44\<rparr>\<rparr>, \<lparr>Coords = \<lparr>X = 11, Y = 45\<rparr>\<rparr>,
                  \<lparr>Coords = \<lparr>X = 20, Y = 46\<rparr>\<rparr>, \<lparr>Coords = \<lparr>X = 20, Y = 47\<rparr>\<rparr>,
                  \<lparr>Coords = \<lparr>X = 20, Y = 48\<rparr>\<rparr>],
          arr = [0, 1, 2, 3, 4], len = 5\<rparr>
   \<and> (1::nat) < length (heap two_dusts)
   \<and> X (Coords (\<lparr>Coords = \<lparr>X = 11, Y = 45\<rparr>\<rparr>)) = X (Coords (heap two_dusts ! 1))"
proof -
  have t: "ticks demo_board [20, 20, 20] two_dusts =
     Inr \<lparr>heap = [\<lparr>Coords = \<lparr>X = 7, Y = 44\<rparr>\<rparr>, \<lparr>Coords = \<lparr>X = 11, Y = 45\<rparr>\<rparr>,
                  \<lparr>Coords = \<lparr>X = 20, Y = 46\<rparr>\<rparr>, \<lparr>Coords = \<lparr>X = 20, Y = 47\<rparr>\<rparr>,
                  \<lparr>Coords = \<lparr>X = 20, Y = 48\<rparr>\<rparr>],
          arr = [0, 1, 2, 3, 4], len = 5\<rparr>"
    by code_simp
  have p: "(1::nat) < length (heap two_dusts)" by (simp add: two_dusts_def)
  from Update_keeps_x [THEN conjunct2, rule_format, OF t p]
  have "X (Coords (\<lparr>Coords = \<lparr>X = 11, Y = 45\<rparr>\<rparr>)) = X (Coords (heap two_dusts ! 1))"
    by simp
  with t p show ?thesis by blast
qed

section \<open>Properties of the loaders and the sound pool\<close>

subsection \<open>loadSprite\<close>

lemma loadSprite_missing_description:
  "assets e (path_Join [''assets'', ''sprites'', name] @ ''.json'') = None \<Longrightarrow>
   loadSprite e name = Inl (FatalOpen (path_Join [''assets'', ''sprites'', name]))"
  by (simp add: loadSprite_def Let_def)

lemma LoadImage_fatal:
  "assets e name = None \<Longrightarrow> LoadImage e name = Inl (FatalOpen name)"
  "assets e name = Some Directory \<Longrightarrow> LoadImage e name = Inl (FatalDecode name)"
  "assets e name = Some (File data) \<Longrightarrow> png_Decode e data = Inl err \<Longrightarrow>
   LoadImage e name = Inl (FatalDecode name)"
  by (simp_all add: LoadImage_def)

lemma loadSprite_image_fatal:
  "LoadImage e (path_Join [''assets'', ''sprites'', name] @ ''.png'') = Inl x \<Longrightarrow>
   \<exists>y. loadSprite e name = Inl y"
  by (auto simp: loadSprite_def Let_def ioutil_ReadAll_def split: option.splits entry.splits)

lemma loadSprite_ignores_unmarshal_error:
  assumes "assets e (path_Join [''assets'', ''sprites'', name] @ ''.json'') = Some (File data)"
    and "LoadImage e (path_Join [''assets'', ''sprites'', name] @ ''.png'') = Inr img"
  shows "loadSprite e name = Inr ((fst (json_Unmarshal e data zero_SpriteSheet))\<lparr>Image := Some img\<rparr>)"
  using assms by (simp add: loadSprite_def Let_def ioutil_ReadAll_def)

lemma path_Clean_examples:
  "path_Clean ''a/c'' = ''a/c''"
  "path_Clean ''a//c'' = ''a/c''"
  "path_Clean ''a/c/.'' = ''a/c''"
  "path_Clean ''a/c/b/..'' = ''a/c''"
  "path_Clean ''/../a/c'' = ''/a/c''"
  "path_Clean ''/../a/b/../././/c'' = ''/a/c''"
  "path_Clean ''a/../../b'' = ''../b''"
  "path_Clean ''a/..'' = ''.''"
  "path_Clean ''/'' = ''/''"
  "path_Clean [] = ''.''"
  by code_simp+

lemma path_Join_examples:
  "path_Join [''assets'', ''sprites'', ''player''] = ''assets/sprites/player''"
  "path_Join [''assets'', ''sprites'', []] = ''assets/sprites''"
  "path_Join [[], [], ''a''] = ''a''"
  "path_Join [[], []] = []"
  "path_Join [''assets'', ''sprites'', ''../../dir.png/foo''] = ''dir.png/foo''"
  by code_simp+

text \<open>
  The directive embeds nothing under a first element that does not match \<open>*.png\<close>.
\<close>

lemma split_slash_not_Nil: "split_slash p \<noteq> []"
  by (induction p) (auto split: list.splits)

lemma go_embed_png_first_element:
  assumes "name \<noteq> ''.''" and "go_embed_png dir name = Some x"
  shows "match_png (hd (split_slash name))"
proof (cases "map_of (filter (\<lambda>(p, data). embedded p) dir) name")
  case (Some data)
  then have "(name, data) \<in> set (filter (\<lambda>(p, data). embedded p) dir)"
    by (rule map_of_SomeD)
  then have "embedded name" by simp
  then show ?thesis by (simp add: embedded_def Let_def split: if_splits)
next
  case None
  with assms have "list_ex (\<lambda>(p, data). embedded p
      \<and> below (split_slash p) (split_slash name)) dir"
    by (simp add: go_embed_png_def split: if_splits)
  then obtain p where e: "embedded p" and b: "below (split_slash p) (split_slash name)"
    by (auto simp: list_ex_iff)
  from b have "hd (split_slash p) = hd (split_slash name)"
    using split_slash_not_Nil [of name]
    by (cases "split_slash name"; cases "split_slash p") (auto simp: below_def)
  with e show ?thesis by (simp add: embedded_def Let_def split: if_splits)
qed

lemma loadSprite_plain_name_fatal:
  "loadSprite embed_env ''player'' = Inl (FatalOpen ''assets/sprites/player'')"
  by code_simp

text \<open>
  Claim C2: \<open>loadSprite\<close> ends the process whenever the description or the image is
  missing or malformed; a malformed description never gives an empty sheet.

  A missing description, a missing image and an image that does not decode are
  fatal, as the lemmas above show. A malformed description is not: the error that
  \<open>json.Unmarshal\<close> returns is dropped, and the test after it looks at the error of
  the read before. The embedded file system holds a description only below a
  directory whose name matches \<open>*.png\<close>, and \<open>path.Join\<close> leads there from a name
  that climbs out of \<open>assets/sprites\<close>. For the name \<open>../../dir.png/foo\<close> the code
  opens \<open>dir.png/foo.json\<close>, whose content \<open>{\<close> does not parse, and returns a sheet
  with no frames, no tags and the image of \<open>dir.png/foo.png\<close> attached.
\<close>

theorem loadSprite_malformed_description:
  "path_Join [''assets'', ''sprites'', ''../../dir.png/foo''] = ''dir.png/foo''
   \<and> assets embed_env ''dir.png/foo.json'' = Some (File [123])
   \<and> snd (json_Unmarshal embed_env [123] zero_SpriteSheet) = Some ''unexpected end of JSON input''
   \<and> loadSprite embed_env ''../../dir.png/foo'' =
       Inr \<lparr>Sprite = [], Meta = \<lparr>ImageName = [], FrameTags = []\<rparr>,
            Image = Some (NewImageFromImage [137, 80, 78, 71])\<rparr>"
  by code_simp

subsection \<open>Play and SetVolume\<close>

lemma PlayVariant_in_range:
  assumes "0 \<le> i" and "i < int (length (Audio s))" and "volume_ok s"
  shows "PlayVariant i s = Inr (s\<lparr>LastPlayed := i,
           Audio := (Audio s)[nat i := (Audio s ! nat i)\<lparr>pvolume := Volume s, position := 0, playing := True\<rparr>]\<rparr>)"
  using assms
  by (simp add: PlayVariant_def Let_def Player_SetVolume_def Player_Play_def Player_Rewind_def
      volume_ok_def)

lemma PlayVariant_out_of_range:
  "i < 0 \<or> int (length (Audio s)) \<le> i \<Longrightarrow> PlayVariant i s = Inl IndexOutOfRange"
  by (simp add: PlayVariant_def Let_def)

lemma Play_selects:
  assumes "Audio s \<noteq> []"
  shows "Play r s = PlayVariant (if length (Audio s) = 1 then 0 else r mod int (length (Audio s))) s"
proof (cases "length (Audio s) = 1")
  case True
  then show ?thesis by (simp add: Play_def Let_def)
next
  case False
  with assms have "1 < length (Audio s)" by (cases "Audio s") auto
  then show ?thesis using assms by (simp add: Play_def Let_def rand_Intn_def)
qed

text \<open>
  Claim C6: \<open>Play\<close> on a pool without variants changes nothing; on a pool of one
  variant it plays variant 0 whatever the random draw; on a pool of N > 1 variants
  it plays a variant with an index in \<open>[0, N)\<close>. Playing variant \<open>i\<close> records \<open>i\<close>
  as last played and sets the volume of that player, rewinds and starts it.
  The pool's volume is one the library accepts, as it is in every pool that is
  only changed through its methods.
\<close>

theorem Play_cases:
  "(Audio s = [] \<longrightarrow> Play r s = Inr s)
   \<and> (length (Audio s) = 1 \<and> volume_ok s \<longrightarrow>
        Play r s = Inr (s\<lparr>LastPlayed := 0,
          Audio := (Audio s)[0 := (Audio s ! 0)\<lparr>pvolume := Volume s, position := 0, playing := True\<rparr>]\<rparr>))
   \<and> (1 < length (Audio s) \<and> volume_ok s \<longrightarrow>
        (\<exists>i. 0 \<le> i \<and> i < int (length (Audio s)) \<and>
          Play r s = Inr (s\<lparr>LastPlayed := i,
            Audio := (Audio s)[nat i := (Audio s ! nat i)\<lparr>pvolume := Volume s, position := 0, playing := True\<rparr>]\<rparr>)))"
proof (intro conjI impI)
  assume "Audio s = []"
  then show "Play r s = Inr s" by (simp add: Play_def)
next
  assume a: "length (Audio s) = 1 \<and> volume_ok s"
  then have ne: "Audio s \<noteq> []" by auto
  from Play_selects [OF ne, of r] a PlayVariant_in_range [of 0 s]
  show "Play r s = Inr (s\<lparr>LastPlayed := 0,
          Audio := (Audio s)[0 := (Audio s ! 0)\<lparr>pvolume := Volume s, position := 0, playing := True\<rparr>]\<rparr>)"
    by simp
next
  assume a: "1 < length (Audio s) \<and> volume_ok s"
  then have ne: "Audio s \<noteq> []" by auto
  let ?i = "r mod int (length (Audio s))"
  have pos: "0 < int (length (Audio s))" using a by (cases "Audio s") simp_all
  have i: "0 \<le> ?i" "?i < int (length (Audio s))"
    using pos_mod_sign [OF pos] pos_mod_bound [OF pos] by simp_all
  from Play_selects [OF ne, of r] a have "Play r s = PlayVariant ?i s" by simp
  with PlayVariant_in_range [OF i] a i
  show "\<exists>i. 0 \<le> i \<and> i < int (length (Audio s)) \<and>
          Play r s = Inr (s\<lparr>LastPlayed := i,
            Audio := (Audio s)[nat i := (Audio s ! nat i)\<lparr>pvolume := Volume s, position := 0, playing := True\<rparr>]\<rparr>)"
    by metis
qed

theorem Play_cases_witness:
  "Audio zero_Sound = [] \<and> Play 7 zero_Sound = Inr zero_Sound
   \<and> length (Audio single_pool) = 1 \<and> volume_ok single_pool
   \<and> Play 7 single_pool = Inr (single_pool\<lparr>LastPlayed := 0,
        Audio := (Audio single_pool)[0 := (Audio single_pool ! 0)
                   \<lparr>pvolume := Volume single_pool, position := 0, playing := True\<rparr>]\<rparr>)
   \<and> 1 < length (Audio demo_pool) \<and> volume_ok demo_pool
   \<and> (\<exists>i. 0 \<le> i \<and> i < int (length (Audio demo_pool)) \<and>
          Play 7 demo_pool = Inr (demo_pool\<lparr>LastPlayed := i,
            Audio := (Audio demo_pool)[nat i := (Audio demo_pool ! nat i)
                       \<lparr>pvolume := Volume demo_pool, position := 0, playing := True\<rparr>]\<rparr>))"
proof -
  have z: "Audio zero_Sound = []" by (simp add: zero_Sound_def)
  have s: "length (Audio single_pool) = 1 \<and> volume_ok single_pool"
    by (simp add: single_pool_def volume_ok_def)
  have d: "1 < length (Audio demo_pool) \<and> volume_ok demo_pool"
    by (simp add: demo_pool_def volume_ok_def)
  from Play_cases [of zero_Sound 7] z have 1: "Play 7 zero_Sound = Inr zero_Sound" by blast
  from Play_cases [of single_pool 7] s
  have 2: "Play 7 single_pool = Inr (single_pool\<lparr>LastPlayed := 0,
        Audio := (Audio single_pool)[0 := (Audio single_pool ! 0)
                   \<lparr>pvolume := Volume single_pool, position := 0, playing := True\<rparr>]\<rparr>)"
    by blast
  from Play_cases [of demo_pool 7] d
  have 3: "\<exists>i. 0 \<le> i \<and> i < int (length (Audio demo_pool)) \<and>
          Play 7 demo_pool = Inr (demo_pool\<lparr>LastPlayed := i,
            Audio := (Audio demo_pool)[nat i := (Audio demo_pool ! nat i)
                       \<lparr>pvolume := Volume demo_pool, position := 0, playing := True\<rparr>]\<rparr>)"
    by blast
  from z s d 1 2 3 show ?thesis by blast
qed

text \<open>
  Claim C7: for \<open>v\<close> in \<open>[0, 1]\<close>, \<open>SetVolume(v)\<close> stores \<open>v\<close>, and a following
  \<open>Play\<close> on a pool with a variant returns with the played variant at volume \<open>v\<close>.
  For any other \<open>v\<close>, not-a-number included, \<open>SetVolume(v)\<close> leaves the pool as it
  was; it has no way to fail.
\<close>

theorem SetVolume_then_Play:
  "(f64_le (Finite 0) v \<and> f64_le v (Finite 1) \<longrightarrow>
      SetVolume v s = s\<lparr>Volume := v\<rparr>
      \<and> (Audio s \<noteq> [] \<longrightarrow>
           (\<exists>i s'. 0 \<le> i \<and> i < int (length (Audio s)) \<and> Play r (SetVolume v s) = Inr s'
              \<and> LastPlayed s' = i \<and> length (Audio s') = length (Audio s)
              \<and> pvolume (Audio s' ! nat i) = v \<and> playing (Audio s' ! nat i))))
   \<and> (\<not> (f64_le (Finite 0) v \<and> f64_le v (Finite 1)) \<longrightarrow> SetVolume v s = s)"
proof (intro conjI impI)
  assume v: "f64_le (Finite 0) v \<and> f64_le v (Finite 1)"
  then show "SetVolume v s = s\<lparr>Volume := v\<rparr>" by (simp add: SetVolume_def)
next
  assume v: "f64_le (Finite 0) v \<and> f64_le v (Finite 1)" and ne: "Audio s \<noteq> []"
  let ?s = "s\<lparr>Volume := v\<rparr>"
  let ?i = "if length (Audio s) = 1 then 0 else r mod int (length (Audio s))"
  have sv: "SetVolume v s = ?s" using v by (simp add: SetVolume_def)
  have ok: "volume_ok ?s" using v by (simp add: volume_ok_def)
  have pos: "0 < int (length (Audio s))" using ne by simp
  have i: "0 \<le> ?i" "?i < int (length (Audio ?s))"
    using pos_mod_sign [OF pos, of r] pos_mod_bound [OF pos, of r] by simp_all
  have "Play r ?s = PlayVariant ?i ?s" using Play_selects [of ?s r] ne by simp
  with PlayVariant_in_range [OF i ok]
  have p: "Play r (SetVolume v s) = Inr (?s\<lparr>LastPlayed := ?i,
           Audio := (Audio ?s)[nat ?i := (Audio ?s ! nat ?i)\<lparr>pvolume := Volume ?s, position := 0, playing := True\<rparr>]\<rparr>)"
    using sv by simp
  show "\<exists>i s'. 0 \<le> i \<and> i < int (length (Audio s)) \<and> Play r (SetVolume v s) = Inr s'
              \<and> LastPlayed s' = i \<and> length (Audio s') = length (Audio s)
              \<and> pvolume (Audio s' ! nat i) = v \<and> playing (Audio s' ! nat i)"
    apply (rule exI [of _ ?i])
    apply (rule exI [of _ "?s\<lparr>LastPlayed := ?i,
           Audio := (Audio ?s)[nat ?i := (Audio ?s ! nat ?i)\<lparr>pvolume := Volume ?s, position := 0, playing := True\<rparr>]\<rparr>"])
    using p i by simp
next
  assume "\<not> (f64_le (Finite 0) v \<and> f64_le v (Finite 1))"
  then show "SetVolume v s = s" by (auto simp: SetVolume_def)
qed

theorem SetVolume_then_Play_witness:
  "f64_le (Finite 0) (Finite (1 / 2)) \<and> f64_le (Finite (1 / 2)) (Finite 1)
   \<and> SetVolume (Finite (1 / 2)) demo_pool = demo_pool\<lparr>Volume := Finite (1 / 2)\<rparr>
   \<and> Audio demo_pool \<noteq> []
   \<and> (\<exists>i s'. 0 \<le> i \<and> i < int (length (Audio demo_pool))
         \<and> Play 7 (SetVolume (Finite (1 / 2)) demo_pool) = Inr s'
         \<and> LastPlayed s' = i \<and> length (Audio s') = length (Audio demo_pool)
         \<and> pvolume (Audio s' ! nat i) = Finite (1 / 2) \<and> playing (Audio s' ! nat i))
   \<and> \<not> (f64_le (Finite 0) (Finite 2) \<and> f64_le (Finite 2) (Finite 1))
   \<and> SetVolume (Finite 2) demo_pool = demo_pool
   \<and> \<not> (f64_le (Finite 0) NaN \<and> f64_le NaN (Finite 1))
   \<and> SetVolume NaN demo_pool = demo_pool"
proof -
  have a: "f64_le (Finite 0) (Finite (1 / 2)) \<and> f64_le (Finite (1 / 2)) (Finite 1)" by simp
  have b: "\<not> (f64_le (Finite 0) (Finite 2) \<and> f64_le (Finite 2) (Finite 1))" by simp
  have c: "\<not> (f64_le (Finite 0) NaN \<and> f64_le NaN (Finite 1))" by simp
  have n: "Audio demo_pool \<noteq> []" by (simp add: demo_pool_def)
  from SetVolume_then_Play [of "Finite (1 / 2)" demo_pool 7] a n
  have 1: "SetVolume (Finite (1 / 2)) demo_pool = demo_pool\<lparr>Volume := Finite (1 / 2)\<rparr>"
    and 2: "\<exists>i s'. 0 \<le> i \<and> i < int (length (Audio demo_pool))
         \<and> Play 7 (SetVolume (Finite (1 / 2)) demo_pool) = Inr s'
         \<and> LastPlayed s' = i \<and> length (Audio s') = length (Audio demo_pool)
         \<and> pvolume (Audio s' ! nat i) = Finite (1 / 2) \<and> playing (Audio s' ! nat i)"
    by blast+
  from SetVolume_then_Play [of "Finite 2" demo_pool 7] b
  have 3: "SetVolume (Finite 2) demo_pool = demo_pool" by blast
  from SetVolume_then_Play [of NaN demo_pool 7] c
  have 4: "SetVolume NaN demo_pool = demo_pool" by blast
  from a b c n 1 2 3 4 show ?thesis by blast
qed

subsection \<open>PlayVariant and Pause\<close>

lemma AddSound_loop_frame:
  "AddSound_loop e f sampleRate ctx variants i s = Inr s' \<Longrightarrow>
   LastPlayed s' = LastPlayed s \<and> Volume s' = Volume s"
proof (induction e f sampleRate ctx variants i s rule: AddSound_loop.induct)
  case (1 e f sampleRate ctx variants i s)
  show ?case
  proof (cases "i < variants")
    case False
    with "1.prems" show ?thesis by (simp add: AddSound_loop.simps)
  next
    case True
    let ?fn = "if variants = 1 then f @ ''.ogg'' else f @ ''-'' @ strconv_Itoa (i + 1) @ ''.ogg''"
    from "1.prems" True obtain audioFile p where
      l: "LoadSoundFile e ?fn sampleRate = Inr audioFile"
      and n: "NewSoundPlayer e audioFile ctx = Inr p"
      and r: "AddSound_loop e f sampleRate ctx variants (i + 1) (s\<lparr>Audio := Audio s @ [p]\<rparr>) = Inr s'"
      by (subst (asm) AddSound_loop.simps) (auto simp: Let_def split: sum.splits)
    from "1.IH" [OF True refl l n r] show ?thesis by simp
  qed
qed

lemma do_call_LastPlayed: "do_call e c s = Inr s' \<Longrightarrow> LastPlayed s' = LastPlayed s"
proof (cases c)
  case (CallAddMusic f sampleRate ctx)
  assume "do_call e c s = Inr s'"
  with CallAddMusic show ?thesis by (auto simp: AddMusic_def split: sum.splits)
next
  case (CallAddSound f sampleRate ctx v)
  assume "do_call e c s = Inr s'"
  with CallAddSound show ?thesis by (auto simp: AddSound_def Let_def dest: AddSound_loop_frame)
next
  case (CallSetVolume v)
  assume "do_call e c s = Inr s'"
  with CallSetVolume show ?thesis by (auto simp: SetVolume_def split: if_splits)
next
  case CallPause
  assume "do_call e c s = Inr s'"
  with CallPause show ?thesis by (auto simp: Pause_def split: if_splits)
qed

lemma do_calls_LastPlayed: "do_calls e cs s = Inr s' \<Longrightarrow> LastPlayed s' = LastPlayed s"
proof (induction cs arbitrary: s)
  case Nil
  then show ?case by simp
next
  case (Cons c cs)
  then obtain s1 where c: "do_call e c s = Inr s1" and r: "do_calls e cs s1 = Inr s'"
    by (auto split: sum.splits)
  from Cons.IH [OF r] do_call_LastPlayed [OF c] show ?case by simp
qed

lemma Pause_in_range:
  "0 \<le> LastPlayed s \<Longrightarrow> LastPlayed s < int (length (Audio s)) \<Longrightarrow>
   Pause s = Inr (s\<lparr>Audio := (Audio s)[nat (LastPlayed s) :=
                        (Audio s ! nat (LastPlayed s))\<lparr>playing := False\<rparr>]\<rparr>)"
  by (simp add: Pause_def Player_Pause_def)

lemma Pause_empty_pool: "Audio s = [] \<Longrightarrow> Pause s = Inl IndexOutOfRange"
  by (auto simp: Pause_def)
lemma volume_ok_zero_Sound: "volume_ok zero_Sound"
  by (simp add: volume_ok_def zero_Sound_def)

lemma volume_ok_SetVolume: "volume_ok s \<Longrightarrow> volume_ok (SetVolume v s)"
  by (simp add: volume_ok_def SetVolume_def)

lemma volume_ok_do_call: "volume_ok s \<Longrightarrow> do_call e c s = Inr s' \<Longrightarrow> volume_ok s'"
proof (cases c)
  case (CallAddMusic f sampleRate ctx)
  assume "volume_ok s" "do_call e c s = Inr s'"
  with CallAddMusic show ?thesis by (auto simp: AddMusic_def volume_ok_def split: sum.splits)
next
  case (CallAddSound f sampleRate ctx v)
  assume "volume_ok s" "do_call e c s = Inr s'"
  with CallAddSound show ?thesis
    by (auto simp: AddSound_def Let_def volume_ok_def dest: AddSound_loop_frame)
next
  case (CallSetVolume v)
  assume "volume_ok s" "do_call e c s = Inr s'"
  with CallSetVolume show ?thesis by (auto simp: volume_ok_SetVolume)
next
  case CallPause
  assume "volume_ok s" "do_call e c s = Inr s'"
  with CallPause show ?thesis by (auto simp: Pause_def volume_ok_def split: if_splits)
qed

lemma volume_ok_PlayVariant: "volume_ok s \<Longrightarrow> PlayVariant i s = Inr s' \<Longrightarrow> volume_ok s'"
  by (auto simp: PlayVariant_def Let_def volume_ok_def split: if_splits sum.splits)

lemma volume_ok_Play: "volume_ok s \<Longrightarrow> Play r s = Inr s' \<Longrightarrow> volume_ok s'"
  by (auto simp: Play_def Let_def rand_Intn_def dest: volume_ok_PlayVariant
           split: if_splits sum.splits)

text \<open>
  Claim C8: for an index \<open>i\<close> of the pool, \<open>PlayVariant(i)\<close> sets \<open>LastPlayed\<close> to
  \<open>i\<close>, and a \<open>Pause\<close> right after it pauses variant \<open>i\<close> and touches no other.
  In a pool that started as the zero value and has seen any calls other than
  \<open>Play\<close> and \<open>PlayVariant\<close>, \<open>LastPlayed\<close> is 0, and \<open>Pause\<close> pauses variant 0
  when the pool has one.
\<close>

theorem PlayVariant_then_Pause:
  "(0 \<le> i \<and> i < int (length (Audio s)) \<and> volume_ok s \<longrightarrow>
      (\<exists>s1. PlayVariant i s = Inr s1 \<and> LastPlayed s1 = i
         \<and> length (Audio s1) = length (Audio s)
         \<and> Pause s1 = Inr (s1\<lparr>Audio := (Audio s1)[nat i := (Audio s1 ! nat i)\<lparr>playing := False\<rparr>]\<rparr>)))
   \<and> (do_calls e cs zero_Sound = Inr s' \<longrightarrow>
        LastPlayed s' = 0
        \<and> (Audio s' \<noteq> [] \<longrightarrow>
             Pause s' = Inr (s'\<lparr>Audio := (Audio s')[0 := (Audio s' ! 0)\<lparr>playing := False\<rparr>]\<rparr>)))"
proof (intro conjI impI)
  assume a: "0 \<le> i \<and> i < int (length (Audio s)) \<and> volume_ok s"
  define s1 where "s1 = s\<lparr>LastPlayed := i,
           Audio := (Audio s)[nat i := (Audio s ! nat i)\<lparr>pvolume := Volume s, position := 0, playing := True\<rparr>]\<rparr>"
  have p: "PlayVariant i s = Inr s1"
    using a PlayVariant_in_range [of i s] by (simp add: s1_def)
  have l: "LastPlayed s1 = i" and n: "length (Audio s1) = length (Audio s)"
    by (simp_all add: s1_def)
  have "Pause s1 = Inr (s1\<lparr>Audio := (Audio s1)[nat i := (Audio s1 ! nat i)\<lparr>playing := False\<rparr>]\<rparr>)"
    using Pause_in_range [of s1] a l n by simp
  with p l n show "\<exists>s1. PlayVariant i s = Inr s1 \<and> LastPlayed s1 = i
         \<and> length (Audio s1) = length (Audio s)
         \<and> Pause s1 = Inr (s1\<lparr>Audio := (Audio s1)[nat i := (Audio s1 ! nat i)\<lparr>playing := False\<rparr>]\<rparr>)"
    by blast
next
  assume r: "do_calls e cs zero_Sound = Inr s'"
  from do_calls_LastPlayed [OF r] show z: "LastPlayed s' = 0" by (simp add: zero_Sound_def)
  assume "Audio s' \<noteq> []"
  then show "Pause s' = Inr (s'\<lparr>Audio := (Audio s')[0 := (Audio s' ! 0)\<lparr>playing := False\<rparr>]\<rparr>)"
    using Pause_in_range [of s'] z by simp
qed

theorem PlayVariant_then_Pause_witness:
  "(0::int) \<le> 2 \<and> 2 < int (length (Audio demo_pool)) \<and> volume_ok demo_pool
   \<and> (\<exists>s1. PlayVariant 2 demo_pool = Inr s1 \<and> LastPlayed s1 = 2
         \<and> length (Audio s1) = length (Audio demo_pool)
         \<and> Pause s1 = Inr (s1\<lparr>Audio := (Audio s1)[nat 2 := (Audio s1 ! nat 2)\<lparr>playing := False\<rparr>]\<rparr>))
   \<and> do_calls demo_env [CallAddSound ''step'' 44100 (Context 44100) [3], CallSetVolume (Finite 2),
         CallAddMusic ''theme'' 44100 (Context 44100), CallPause] zero_Sound =
       Inr (demo_pool\<lparr>Audio := Audio demo_pool @
              [\<lparr>source = InfiniteLoop \<lparr>samples = [5, 6], Length = 2\<rparr> 2,
                pvolume = Finite 1, playing = False, position = 0\<rparr>]\<rparr>)
   \<and> LastPlayed (demo_pool\<lparr>Audio := Audio demo_pool @
              [\<lparr>source = InfiniteLoop \<lparr>samples = [5, 6], Length = 2\<rparr> 2,
                pvolume = Finite 1, playing = False, position = 0\<rparr>]\<rparr>) = 0"
proof -
  let ?s = "demo_pool\<lparr>Audio := Audio demo_pool @
              [\<lparr>source = InfiniteLoop \<lparr>samples = [5, 6], Length = 2\<rparr> 2,
                pvolume = Finite 1, playing = False, position = 0\<rparr>]\<rparr>"
  have a: "(0::int) \<le> 2 \<and> 2 < int (length (Audio demo_pool)) \<and> volume_ok demo_pool"
    by (simp add: demo_pool_def volume_ok_def)
  have r: "do_calls demo_env [CallAddSound ''step'' 44100 (Context 44100) [3], CallSetVolume (Finite 2),
         CallAddMusic ''theme'' 44100 (Context 44100), CallPause] zero_Sound = Inr ?s"
    by code_simp
  from PlayVariant_then_Pause [of 2 demo_pool] a
  have 1: "\<exists>s1. PlayVariant 2 demo_pool = Inr s1 \<and> LastPlayed s1 = 2
         \<and> length (Audio s1) = length (Audio demo_pool)
         \<and> Pause s1 = Inr (s1\<lparr>Audio := (Audio s1)[nat 2 := (Audio s1 ! nat 2)\<lparr>playing := False\<rparr>]\<rparr>)"
    by blast
  from PlayVariant_then_Pause [of _ _ demo_env _ ?s] r
  have 2: "LastPlayed ?s = 0" by blast
  from a r 1 2 show ?thesis by blast
qed

subsection \<open>AddSound\<close>



lemma AddSound_missing_file:
  assumes "0 < n" and "assets e (file_name f n 0) = None"
  shows "AddSound e f sampleRate ctx [n] s = Inl (FatalOpen (file_name f n 0))"
proof -
  have "LoadSoundFile e (file_name f n 0) sampleRate = Inl (FatalOpen (file_name f n 0))"
    using assms(2) by (simp add: LoadSoundFile_def)
  then have "AddSound_loop e f sampleRate ctx n 0 s = Inl (FatalOpen (file_name f n 0))"
    using assms(1) by (subst AddSound_loop.simps) (simp add: Let_def file_name_def)
  then show ?thesis by (simp add: AddSound_def)
qed




end
